theory Spec2Isabelle
  imports Main
begin

section \<open>Python strings\<close>

text \<open>
  A Python \<^verbatim>\<open>str\<close> is a sequence of Unicode code points. A code point is a natural
  number here, so that the byte-order mark U+FEFF is one character, as it is for
  the test \<^verbatim>\<open>content.startswith\<close> on that mark and for \<^verbatim>\<open>content[1:]\<close>.
  ASCII literals of the source are written \<open>u ''...''\<close>.
\<close>

type_synonym ustr = "nat list"

definition u :: "string \<Rightarrow> ustr" where
  "u s = map of_char s"

definition BOM :: nat where "BOM = 0xFEFF"
definition NL :: nat where "NL = 10"
definition DQ :: nat where "DQ = 34"
definition COMMA :: nat where "COMMA = 44"
definition EQ :: nat where "EQ = 61"
definition LBRACK :: nat where "LBRACK = 91"

text \<open>
  \<^verbatim>\<open>str.isspace\<close> on one character, which is also what \<^verbatim>\<open>str.strip()\<close> removes and what
  \<^verbatim>\<open>\s\<close> matches in a \<^verbatim>\<open>str\<close> pattern: the code points of bidirectional class WS, B or S
  and of category Zs.
\<close>

definition isspace :: "nat \<Rightarrow> bool" where
  "isspace c \<longleftrightarrow>
     (9 \<le> c \<and> c \<le> 13) \<or> (28 \<le> c \<and> c \<le> 32) \<or> c = 0x85 \<or> c = 0xA0 \<or> c = 0x1680 \<or>
     (0x2000 \<le> c \<and> c \<le> 0x200A) \<or> c = 0x2028 \<or> c = 0x2029 \<or> c = 0x202F \<or>
     c = 0x205F \<or> c = 0x3000"

text \<open>\<^verbatim>\<open>s.strip()\<close>\<close>

definition strip :: "ustr \<Rightarrow> ustr" where
  "strip s = rev (dropWhile isspace (rev (dropWhile isspace s)))"

text \<open>\<^verbatim>\<open>s.startswith(p)\<close>\<close>

definition startswith :: "ustr \<Rightarrow> ustr \<Rightarrow> bool" where
  "startswith s p \<longleftrightarrow> take (length p) s = p"

text \<open>\<^verbatim>\<open>s.split(c)\<close> for a separator of one character: never the empty list.\<close>

fun split_char :: "nat \<Rightarrow> ustr \<Rightarrow> ustr list" where
  "split_char c [] = [[]]"
| "split_char c (x # xs) =
     (if x = c then [] # split_char c xs
      else (case split_char c xs of
              [] \<Rightarrow> [[x]]
            | w # ws \<Rightarrow> (x # w) # ws))"

section \<open>The data model\<close>

record Column =
  col_logical_name :: ustr
  col_physical_name :: ustr
  data_type :: ustr
  not_null :: bool
  is_pk :: bool

record TableIndex =
  idx_name :: ustr
  is_unique :: bool
  idx_columns :: "ustr list"

record Table =
  physical_name :: ustr
  logical_name :: ustr
  page :: ustr
  columns :: "Column list"
  indexes :: "TableIndex list"

record ForeignKey =
  parent_table :: ustr
  child_table :: ustr
  parent_column :: ustr
  child_column :: ustr

section \<open>RelationIndex\<close>

text \<open>
  A Python \<^verbatim>\<open>dict\<close> keeps its keys in insertion order; it is an association list with
  distinct keys. \<^verbatim>\<open>d.setdefault(k, []).append(v)\<close> appends to the list stored under
  \<open>k\<close>, after storing an empty list under a new key at the end.
\<close>

fun setdefault_append :: "'k \<Rightarrow> 'v \<Rightarrow> ('k \<times> 'v list) list \<Rightarrow> ('k \<times> 'v list) list" where
  "setdefault_append k v [] = [(k, [v])]"
| "setdefault_append k v ((k', vs) # d) =
     (if k' = k then (k', vs @ [v]) # d else (k', vs) # setdefault_append k v d)"

text \<open>\<^verbatim>\<open>d.get(k, [])\<close>\<close>

definition dict_get_list :: "('k \<times> 'v list) list \<Rightarrow> 'k \<Rightarrow> 'v list" where
  "dict_get_list d k = (case map_of d k of None \<Rightarrow> [] | Some vs \<Rightarrow> vs)"

record RelationIndex =
  outgoing :: "(ustr \<times> ForeignKey list) list"
  incoming :: "(ustr \<times> ForeignKey list) list"

definition ri_add :: "RelationIndex \<Rightarrow> ForeignKey \<Rightarrow> RelationIndex" where
  "ri_add ri fk =
     \<lparr>outgoing = setdefault_append (child_table fk) fk (outgoing ri),
      incoming = setdefault_append (parent_table fk) fk (incoming ri)\<rparr>"

definition RelationIndex_init :: "ForeignKey list \<Rightarrow> RelationIndex" where
  "RelationIndex_init foreign_keys = foldl ri_add \<lparr>outgoing = [], incoming = []\<rparr> foreign_keys"

definition get_outgoing :: "RelationIndex \<Rightarrow> ustr \<Rightarrow> ForeignKey list" where
  "get_outgoing ri table_name = dict_get_list (outgoing ri) table_name"

definition get_incoming :: "RelationIndex \<Rightarrow> ustr \<Rightarrow> ForeignKey list" where
  "get_incoming ri table_name = dict_get_list (incoming ri) table_name"

section \<open>The Unicode tables of the runtime\<close>

text \<open>
  Which code points beyond ASCII are decimal digits (\<^verbatim>\<open>\d\<close> in a \<^verbatim>\<open>str\<close> pattern) and what
  \<^verbatim>\<open>str.upper()\<close> maps a code point beyond ASCII to (one or more code points) is decided by
  the Unicode database of the Python runtime, which is not part of the program: both
  tables are parameters. On ASCII the two operations are written out.
\<close>

record unicode_db =
  ud_decimal :: "nat \<Rightarrow> bool"
  ud_upper :: "nat \<Rightarrow> nat list"

definition isdecimal :: "unicode_db \<Rightarrow> nat \<Rightarrow> bool" where
  "isdecimal db c \<longleftrightarrow> (48 \<le> c \<and> c \<le> 57) \<or> (128 \<le> c \<and> ud_decimal db c)"

definition upper_char :: "unicode_db \<Rightarrow> nat \<Rightarrow> nat list" where
  "upper_char db c =
     (if 97 \<le> c \<and> c \<le> 122 then [c - 32] else if c < 128 then [c] else ud_upper db c)"

text \<open>\<^verbatim>\<open>s.upper()\<close>\<close>

definition py_upper :: "unicode_db \<Rightarrow> ustr \<Rightarrow> ustr" where
  "py_upper db s = concat (map (upper_char db) s)"

text \<open>\<^verbatim>\<open>needle in hay\<close> on strings\<close>

fun contains :: "ustr \<Rightarrow> ustr \<Rightarrow> bool" where
  "contains needle [] = (needle = [])"
| "contains needle (x # xs) = (startswith (x # xs) needle \<or> contains needle xs)"

section \<open>The regular expressions\<close>

text \<open>
  The three patterns of the source are matched from the left by \<^verbatim>\<open>re.match\<close> and
  \<^verbatim>\<open>re.split\<close>. Every repetition in them is greedy and is followed either by a literal
  character outside the repeated class or by something that always matches, so that giving
  characters back never turns a failure into a success: the longest run is the only
  candidate, and the matcher is a sequence of these three steps.
\<close>

definition re_lit :: "ustr \<Rightarrow> ustr \<Rightarrow> ustr option" where
  "re_lit p s = (if startswith s p then Some (drop (length p) s) else None)"

definition re_star :: "(nat \<Rightarrow> bool) \<Rightarrow> ustr \<Rightarrow> ustr \<times> ustr" where
  "re_star P s = (takeWhile P s, dropWhile P s)"

definition re_plus :: "(nat \<Rightarrow> bool) \<Rightarrow> ustr \<Rightarrow> (ustr \<times> ustr) option" where
  "re_plus P s = (if takeWhile P s = [] then None else Some (takeWhile P s, dropWhile P s))"

text \<open>The piece \<^verbatim>\<open>"([^"]*)",\s*\<close> of the Field pattern: the group and the rest.\<close>

definition quoted_seg :: "ustr \<Rightarrow> (ustr \<times> ustr) option" where
  "quoted_seg s =
     (case re_lit [DQ] s of
        None \<Rightarrow> None
      | Some r0 \<Rightarrow>
          (case re_star (\<lambda>c. c \<noteq> DQ) r0 of
             (g, r1) \<Rightarrow>
               (case re_lit [DQ, COMMA] r1 of
                  None \<Rightarrow> None
                | Some r2 \<Rightarrow> Some (g, snd (re_star isspace r2)))))"

text \<open>
  \<^verbatim>\<open>_FIELD_PATTERN.match(line)\<close>, the pattern being
  \<^verbatim>\<open>Field="([^"]*)",\s*"([^"]*)",\s*"([^"]*)",\s*"([^"]*)",\s*([^,]*)\<close>:
  the five groups.
\<close>

definition FIELD_PATTERN_match :: "ustr \<Rightarrow> (ustr \<times> ustr \<times> ustr \<times> ustr \<times> ustr) option" where
  "FIELD_PATTERN_match line =
     (case re_lit (u ''Field='') line of
        None \<Rightarrow> None
      | Some r0 \<Rightarrow>
     (case quoted_seg r0 of
        None \<Rightarrow> None
      | Some (g1, r1) \<Rightarrow>
     (case quoted_seg r1 of
        None \<Rightarrow> None
      | Some (g2, r2) \<Rightarrow>
     (case quoted_seg r2 of
        None \<Rightarrow> None
      | Some (g3, r3) \<Rightarrow>
     (case quoted_seg r3 of
        None \<Rightarrow> None
      | Some (g4, r4) \<Rightarrow>
          Some (g1, g2, g3, g4, fst (re_star (\<lambda>c. c \<noteq> COMMA) r4)))))))"

text \<open>
  \<^verbatim>\<open>_INDEX_PATTERN.match(line)\<close>, the pattern being \<^verbatim>\<open>Index=([^=]+)=(\d+),(.+)\<close>; the dot
  matches every character but the newline.
\<close>

definition INDEX_PATTERN_match :: "unicode_db \<Rightarrow> ustr \<Rightarrow> (ustr \<times> ustr \<times> ustr) option" where
  "INDEX_PATTERN_match db line =
     (case re_lit (u ''Index='') line of
        None \<Rightarrow> None
      | Some r0 \<Rightarrow>
     (case re_plus (\<lambda>c. c \<noteq> EQ) r0 of
        None \<Rightarrow> None
      | Some (g1, r1) \<Rightarrow>
     (case re_lit [EQ] r1 of
        None \<Rightarrow> None
      | Some r2 \<Rightarrow>
     (case re_plus (isdecimal db) r2 of
        None \<Rightarrow> None
      | Some (g2, r3) \<Rightarrow>
     (case re_lit [COMMA] r3 of
        None \<Rightarrow> None
      | Some r4 \<Rightarrow>
     (case re_plus (\<lambda>c. c \<noteq> NL) r4 of
        None \<Rightarrow> None
      | Some (g3, r5) \<Rightarrow> Some (g1, g2, g3)))))))"

text \<open>
  \<^verbatim>\<open>_SECTION_SPLIT_PATTERN.split(content)\<close>, the pattern being \<^verbatim>\<open>\n(?=\[)\<close>: the text is cut
  at every newline that an opening bracket follows, and the newline is dropped.
\<close>

fun SECTION_SPLIT :: "ustr \<Rightarrow> ustr list" where
  "SECTION_SPLIT [] = [[]]"
| "SECTION_SPLIT (x # xs) =
     (if x = NL \<and> startswith xs [LBRACK] then [] # SECTION_SPLIT xs
      else (case SECTION_SPLIT xs of
              [] \<Rightarrow> [[x]]
            | w # ws \<Rightarrow> (x # w) # ws))"

section \<open>A5erParser\<close>

text \<open>\<^verbatim>\<open>__init__\<close>: the value of \<^verbatim>\<open>self._content\<close>.\<close>

definition A5erParser_init :: "ustr \<Rightarrow> ustr" where
  "A5erParser_init content = (if startswith content [BOM] then drop 1 content else content)"

definition iter_sections :: "ustr \<Rightarrow> ustr list" where
  "iter_sections content = SECTION_SPLIT content"

definition parse_column :: "unicode_db \<Rightarrow> ustr \<Rightarrow> Column option" where
  "parse_column db line =
     (case FIELD_PATTERN_match line of
        None \<Rightarrow> None
      | Some (g1, g2, g3, constraints, g5) \<Rightarrow>
          (let pk_flag = strip g5 in
           Some \<lparr>col_logical_name = g1,
                 col_physical_name = g2,
                 data_type = g3,
                 not_null = contains (u ''NOT NULL'') (py_upper db constraints),
                 is_pk = (pk_flag = u ''0'')\<rparr>))"

definition parse_index :: "unicode_db \<Rightarrow> ustr \<Rightarrow> TableIndex option" where
  "parse_index db line =
     (case INDEX_PATTERN_match db line of
        None \<Rightarrow> None
      | Some (g1, g2, g3) \<Rightarrow>
          Some \<lparr>idx_name = g1,
                is_unique = (g2 = u ''1''),
                idx_columns = map strip (split_char COMMA g3)\<rparr>)"

text \<open>
  The loop of \<^verbatim>\<open>_parse_table\<close> updates five local variables, which are the five fields of
  the table it returns: the state of the loop is a \<open>Table\<close>.
\<close>

definition parse_table_line :: "unicode_db \<Rightarrow> Table \<Rightarrow> ustr \<Rightarrow> Table" where
  "parse_table_line db st line0 =
     (let line = strip line0 in
      if startswith line (u ''PName='') then st\<lparr>physical_name := drop 6 line\<rparr>
      else if startswith line (u ''LName='') then st\<lparr>logical_name := drop 6 line\<rparr>
      else if startswith line (u ''Page='') then st\<lparr>page := drop 5 line\<rparr>
      else if startswith line (u ''Field='') then
        (case parse_column db line of
           None \<Rightarrow> st
         | Some col \<Rightarrow> st\<lparr>columns := columns st @ [col]\<rparr>)
      else if startswith line (u ''Index='') then
        (case parse_index db line of
           None \<Rightarrow> st
         | Some idx \<Rightarrow> st\<lparr>indexes := indexes st @ [idx]\<rparr>)
      else st)"

definition parse_table :: "unicode_db \<Rightarrow> ustr list \<Rightarrow> Table option" where
  "parse_table db lines =
     (let st = foldl (parse_table_line db)
                 \<lparr>physical_name = [], logical_name = [], page = [], columns = [], indexes = []\<rparr>
                 lines
      in if physical_name st = [] then None else Some st)"

definition parse_foreign_key_line :: "ForeignKey \<Rightarrow> ustr \<Rightarrow> ForeignKey" where
  "parse_foreign_key_line st line0 =
     (let line = strip line0 in
      if startswith line (u ''Entity1='') then st\<lparr>parent_table := drop 8 line\<rparr>
      else if startswith line (u ''Entity2='') then st\<lparr>child_table := drop 8 line\<rparr>
      else if startswith line (u ''Fields1='') then st\<lparr>parent_column := drop 8 line\<rparr>
      else if startswith line (u ''Fields2='') then st\<lparr>child_column := drop 8 line\<rparr>
      else st)"

definition parse_foreign_key :: "ustr list \<Rightarrow> ForeignKey option" where
  "parse_foreign_key lines =
     (let st = foldl parse_foreign_key_line
                 \<lparr>parent_table = [], child_table = [], parent_column = [], child_column = []\<rparr>
                 lines
      in if parent_table st = [] \<or> child_table st = [] \<or> parent_column st = [] \<or>
            child_column st = []
         then None else Some st)"

text \<open>One round of the loop of \<^verbatim>\<open>parse\<close>, on the two lists it appends to.\<close>

definition parse_section ::
  "unicode_db \<Rightarrow> Table list \<times> ForeignKey list \<Rightarrow> ustr \<Rightarrow> Table list \<times> ForeignKey list" where
  "parse_section db acc section =
     (case acc of (tables, foreign_keys) \<Rightarrow>
      (case split_char NL (strip section) of
         [] \<Rightarrow> (tables, foreign_keys)
       | l0 # body \<Rightarrow>
           (let header = strip l0 in
            if header = u ''[Entity]'' then
              (case parse_table db body of
                 None \<Rightarrow> (tables, foreign_keys)
               | Some table \<Rightarrow> (tables @ [table], foreign_keys))
            else if header = u ''[Relation]'' then
              (case parse_foreign_key body of
                 None \<Rightarrow> (tables, foreign_keys)
               | Some fk \<Rightarrow> (tables, foreign_keys @ [fk]))
            else (tables, foreign_keys))))"

definition parse_sections :: "unicode_db \<Rightarrow> ustr list \<Rightarrow> Table list \<times> ForeignKey list" where
  "parse_sections db sections = foldl (parse_section db) ([], []) sections"

text \<open>\<^verbatim>\<open>parse\<close>, on \<^verbatim>\<open>self._content\<close>.\<close>

definition parse :: "unicode_db \<Rightarrow> ustr \<Rightarrow> Table list \<times> ForeignKey list" where
  "parse db content = parse_sections db (iter_sections content)"

text \<open>\<^verbatim>\<open>A5erParser(content).parse()\<close>\<close>

definition A5erParser_parse :: "unicode_db \<Rightarrow> ustr \<Rightarrow> Table list \<times> ForeignKey list" where
  "A5erParser_parse db content = parse db (A5erParser_init content)"

section \<open>MarkdownGenerator\<close>

text \<open>
  The buffer is the text written so far; \<^verbatim>\<open>write(s)\<close> appends to it. The literals beyond
  ASCII are given by their code points.
\<close>

record MarkdownGenerator =
  table_map :: "ustr \<rightharpoonup> Table"
  relation_index :: RelationIndex

text \<open>\<^verbatim>\<open>{t.physical_name: t for t in tables}\<close>: a later table replaces an earlier one.\<close>

definition MarkdownGenerator_init :: "Table list \<Rightarrow> RelationIndex \<Rightarrow> MarkdownGenerator" where
  "MarkdownGenerator_init tables ri =
     \<lparr>table_map = foldl (\<lambda>m t. m(physical_name t \<mapsto> t)) Map.empty tables,
      relation_index = ri\<rparr>"

text \<open>\<^verbatim>\<open>sep.join(xs)\<close>\<close>

fun join :: "ustr \<Rightarrow> ustr list \<Rightarrow> ustr" where
  "join sep [] = []"
| "join sep [x] = x"
| "join sep (x # y # ys) = x @ sep @ join sep (y # ys)"

definition CHECK_MARK :: ustr where "CHECK_MARK = [0x2713]"
definition ARROW :: ustr where "ARROW = [0x2192]"

definition write_column :: "ustr \<Rightarrow> Column \<Rightarrow> ustr" where
  "write_column buf col =
     (let not_null_mark = (if not_null col then CHECK_MARK else []);
          pk = (if is_pk col then CHECK_MARK else [])
      in buf @ u ''| '' @ col_physical_name col @ u '' | '' @ col_logical_name col @ u '' | '' @
         data_type col @ u '' | '' @ not_null_mark @ u '' | '' @ pk @ u '' |'' @ [NL])"

definition write_index :: "ustr \<Rightarrow> TableIndex \<Rightarrow> ustr" where
  "write_index buf idx =
     (let unique_mark = (if is_unique idx then u ''[UNIQUE] '' else []);
          cols = join (u '', '') (idx_columns idx)
      in buf @ u ''- '' @ unique_mark @ u ''`'' @ idx_name idx @ u ''`: '' @ cols @ [NL])"

definition write_outgoing_fk :: "MarkdownGenerator \<Rightarrow> ustr \<Rightarrow> ForeignKey \<Rightarrow> ustr" where
  "write_outgoing_fk gen buf fk =
     (let label = (case table_map gen (parent_table fk) of
                     Some parent \<Rightarrow> parent_table fk @ u '' ('' @ logical_name parent @ u '')''
                   | None \<Rightarrow> parent_table fk)
      in buf @ u ''- `'' @ child_column fk @ u ''` '' @ ARROW @ u '' `'' @ label @ u ''.'' @
         parent_column fk @ u ''`'' @ [NL])"

definition write_incoming_fk :: "MarkdownGenerator \<Rightarrow> ustr \<Rightarrow> ForeignKey \<Rightarrow> ustr" where
  "write_incoming_fk gen buf fk =
     (let label = (case table_map gen (child_table fk) of
                     Some child \<Rightarrow> child_table fk @ u '' ('' @ logical_name child @ u '')''
                   | None \<Rightarrow> child_table fk)
      in buf @ u ''- `'' @ label @ u ''.'' @ child_column fk @ u ''` '' @ ARROW @ u '' `'' @
         parent_column fk @ u ''`'' @ [NL])"

definition COLUMNS_HEADING :: ustr where
  "COLUMNS_HEADING = u ''#### '' @ [0x30AB, 0x30E9, 0x30E0] @ [NL, NL] @
     u ''| '' @ [0x7269, 0x7406, 0x540D] @ u '' | '' @ [0x8AD6, 0x7406, 0x540D] @ u '' | '' @
     [0x578B] @ u '' | NOT NULL | PK |'' @ [NL] @
     u ''|--------|--------|-----|:--------:|:--:|'' @ [NL]"

definition INDEXES_HEADING :: ustr where
  "INDEXES_HEADING = u ''#### '' @ [0x30A4, 0x30F3, 0x30C7, 0x30C3, 0x30AF, 0x30B9] @ [NL, NL]"

definition OUTGOING_HEADING :: ustr where
  "OUTGOING_HEADING = u ''#### '' @
     [0x53C2, 0x7167, 0x3059, 0x308B, 0x30C6, 0x30FC, 0x30D6, 0x30EB] @ u '' ('' @
     [0x5916, 0x90E8, 0x30AD, 0x30FC] @ u '')'' @ [NL, NL]"

definition INCOMING_HEADING :: ustr where
  "INCOMING_HEADING = u ''#### '' @
     [0x53C2, 0x7167, 0x3055, 0x308C, 0x308B, 0x30C6, 0x30FC, 0x30D6, 0x30EB] @ [NL, NL]"

definition write_table :: "MarkdownGenerator \<Rightarrow> ustr \<Rightarrow> Table \<Rightarrow> ustr" where
  "write_table gen buf0 table =
     (let buf1 = buf0 @ u ''### '' @ physical_name table @ u '' ('' @ logical_name table @
                 u '')'' @ [NL, NL];
          buf2 = buf1 @ COLUMNS_HEADING;
          buf3 = foldl write_column buf2 (columns table);
          buf4 = buf3 @ [NL];
          buf5 = (if indexes table \<noteq> [] then
                    foldl write_index (buf4 @ INDEXES_HEADING) (indexes table) @ [NL]
                  else buf4);
          outgoing_fks = get_outgoing (relation_index gen) (physical_name table);
          buf6 = (if outgoing_fks \<noteq> [] then
                    foldl (write_outgoing_fk gen) (buf5 @ OUTGOING_HEADING) outgoing_fks @ [NL]
                  else buf5);
          incoming_fks = get_incoming (relation_index gen) (physical_name table);
          buf7 = (if incoming_fks \<noteq> [] then
                    foldl (write_incoming_fk gen) (buf6 @ INCOMING_HEADING) incoming_fks @ [NL]
                  else buf6)
      in buf7 @ u ''---'' @ [NL, NL])"

section \<open>Concrete inputs\<close>

definition fkA :: ForeignKey where
  "fkA = \<lparr>parent_table = u ''users'', child_table = u ''orders'', parent_column = u ''id'', child_column = u ''user_id''\<rparr>"

text \<open>
  Comparison without regard to case, as the specification words it, on ASCII letters: two
  strings are equal ignoring case when they agree after every letter a-z is replaced by A-Z.
\<close>

definition ascii_upper :: "nat \<Rightarrow> nat" where
  "ascii_upper c = (if 97 \<le> c \<and> c \<le> 122 then c - 32 else c)"

definition eq_ignoring_case :: "ustr \<Rightarrow> ustr \<Rightarrow> bool" where
  "eq_ignoring_case v w \<longleftrightarrow> map ascii_upper v = map ascii_upper w"

text \<open>A runtime whose tables add nothing beyond ASCII, for concrete inputs.\<close>

definition ascii_db :: unicode_db where
  "ascii_db = \<lparr>ud_decimal = (\<lambda>c. False), ud_upper = (\<lambda>c. [c])\<rparr>"

text \<open>
  A Field line as the specification writes it: four quoted segments \<open>a\<close>, \<open>b\<close>, \<open>c\<close>,
  \<open>d\<close>, each followed by a comma, with whitespace \<open>w1\<close>, \<open>w2\<close>, \<open>w3\<close> allowed after the first
  three commas, then the trailing token \<open>tok\<close> and whatever follows it.
\<close>

definition field_line :: "ustr \<Rightarrow> ustr \<Rightarrow> ustr \<Rightarrow> ustr \<Rightarrow> ustr \<Rightarrow> ustr \<Rightarrow> ustr \<Rightarrow> ustr \<Rightarrow> ustr \<Rightarrow> ustr" where
  "field_line a w1 b w2 c w3 d tok rest =
     u ''Field='' @ [DQ] @ a @ [DQ, COMMA] @ w1 @ [DQ] @ b @ [DQ, COMMA] @ w2 @
     [DQ] @ c @ [DQ, COMMA] @ w3 @ [DQ] @ d @ [DQ, COMMA] @ tok @ rest"

section \<open>RelationIndex: what the two dictionaries hold\<close>

lemma sda_keys: "fst ` set (setdefault_append k v d) = insert k (fst ` set d)"
proof (induction d)
  case Nil
  show ?case by simp
next
  case (Cons p d)
  obtain k' vs where p: "p = (k', vs)" by (cases p)
  show ?case using Cons by (cases "k' = k") (auto simp: p)
qed

lemma sda_distinct: "distinct (map fst d) \<Longrightarrow> distinct (map fst (setdefault_append k v d))"
proof (induction d)
  case Nil
  show ?case by simp
next
  case (Cons p d)
  obtain k' vs where p: "p = (k', vs)" by (cases p)
  show ?case using Cons sda_keys[of k v d] by (cases "k' = k") (auto simp: p)
qed

lemma sda_get: "dict_get_list (setdefault_append k v d) k' =
   (if k' = k then dict_get_list d k @ [v] else dict_get_list d k')"
  by (induction d) (auto simp: dict_get_list_def)

lemma sda_sum: "(\<Sum>p\<leftarrow>setdefault_append k v d. length (snd p)) = Suc (\<Sum>p\<leftarrow>d. length (snd p))"
  by (induction d) auto

lemma foldl_ri_add_outgoing:
  "dict_get_list (outgoing (foldl ri_add ri fks)) t =
     dict_get_list (outgoing ri) t @ filter (\<lambda>fk. child_table fk = t) fks"
  by (induction fks arbitrary: ri) (auto simp: ri_add_def sda_get)

lemma foldl_ri_add_incoming:
  "dict_get_list (incoming (foldl ri_add ri fks)) t =
     dict_get_list (incoming ri) t @ filter (\<lambda>fk. parent_table fk = t) fks"
  by (induction fks arbitrary: ri) (auto simp: ri_add_def sda_get)

lemma foldl_ri_add_sum_outgoing:
  "(\<Sum>p\<leftarrow>outgoing (foldl ri_add ri fks). length (snd p)) =
     (\<Sum>p\<leftarrow>outgoing ri. length (snd p)) + length fks"
  by (induction fks arbitrary: ri) (auto simp: ri_add_def sda_sum)

lemma foldl_ri_add_sum_incoming:
  "(\<Sum>p\<leftarrow>incoming (foldl ri_add ri fks). length (snd p)) =
     (\<Sum>p\<leftarrow>incoming ri. length (snd p)) + length fks"
  by (induction fks arbitrary: ri) (auto simp: ri_add_def sda_sum)

lemma foldl_ri_add_distinct:
  "distinct (map fst (outgoing ri)) \<Longrightarrow> distinct (map fst (incoming ri)) \<Longrightarrow>
   distinct (map fst (outgoing (foldl ri_add ri fks))) \<and>
   distinct (map fst (incoming (foldl ri_add ri fks)))"
  by (induction fks arbitrary: ri) (auto simp: ri_add_def sda_distinct)

lemma dict_get_list_entry:
  "distinct (map fst d) \<Longrightarrow> (k, vs) \<in> set d \<Longrightarrow> dict_get_list d k = vs"
  by (simp add: dict_get_list_def)

text \<open>
  C4. For every list of foreign keys, the keys of each dictionary are distinct, the lengths
  of the outgoing lists add up to the number of foreign keys and so do the lengths of the
  incoming lists; the list looked up under a table name is the input list filtered by
  child table (outgoing) or parent table (incoming), so it keeps the input order and each
  foreign key is in the list of its own child table and of its own parent table only; and a
  table name that no foreign key mentions gets the empty list from both lookups.
\<close>

theorem relation_index_partition:
  fixes fks :: "ForeignKey list"
  defines "ri \<equiv> RelationIndex_init fks"
  shows "distinct (map fst (outgoing ri)) \<and> distinct (map fst (incoming ri)) \<and>
    (\<Sum>p\<leftarrow>outgoing ri. length (snd p)) = length fks \<and>
    (\<Sum>p\<leftarrow>incoming ri. length (snd p)) = length fks \<and>
    (\<forall>t. get_outgoing ri t = filter (\<lambda>fk. child_table fk = t) fks) \<and>
    (\<forall>t. get_incoming ri t = filter (\<lambda>fk. parent_table fk = t) fks) \<and>
    (\<forall>(k, vs) \<in> set (outgoing ri). vs = filter (\<lambda>fk. child_table fk = k) fks) \<and>
    (\<forall>(k, vs) \<in> set (incoming ri). vs = filter (\<lambda>fk. parent_table fk = k) fks) \<and>
    (\<forall>t. t \<notin> child_table ` set fks \<longrightarrow> get_outgoing ri t = []) \<and>
    (\<forall>t. t \<notin> parent_table ` set fks \<longrightarrow> get_incoming ri t = [])"
proof -
  have d: "distinct (map fst (outgoing ri)) \<and> distinct (map fst (incoming ri))"
    unfolding ri_def RelationIndex_init_def by (rule foldl_ri_add_distinct) simp_all
  have so: "(\<Sum>p\<leftarrow>outgoing ri. length (snd p)) = length fks"
    unfolding ri_def RelationIndex_init_def by (simp add: foldl_ri_add_sum_outgoing)
  have si: "(\<Sum>p\<leftarrow>incoming ri. length (snd p)) = length fks"
    unfolding ri_def RelationIndex_init_def by (simp add: foldl_ri_add_sum_incoming)
  have go: "get_outgoing ri t = filter (\<lambda>fk. child_table fk = t) fks" for t
    using foldl_ri_add_outgoing[of "\<lparr>outgoing = [], incoming = []\<rparr>" fks t]
    by (simp add: ri_def RelationIndex_init_def get_outgoing_def dict_get_list_def)
  have gi: "get_incoming ri t = filter (\<lambda>fk. parent_table fk = t) fks" for t
    using foldl_ri_add_incoming[of "\<lparr>outgoing = [], incoming = []\<rparr>" fks t]
    by (simp add: ri_def RelationIndex_init_def get_incoming_def dict_get_list_def)
  have eo: "vs = filter (\<lambda>fk. child_table fk = k) fks" if "(k, vs) \<in> set (outgoing ri)" for k vs
    using dict_get_list_entry[OF conjunct1[OF d] that] go[of k] by (simp add: get_outgoing_def)
  have ei: "vs = filter (\<lambda>fk. parent_table fk = k) fks" if "(k, vs) \<in> set (incoming ri)" for k vs
    using dict_get_list_entry[OF conjunct2[OF d] that] gi[of k] by (simp add: get_incoming_def)
  have no: "get_outgoing ri t = []" if "t \<notin> child_table ` set fks" for t
    using that by (auto simp: go filter_empty_conv)
  have ni: "get_incoming ri t = []" if "t \<notin> parent_table ` set fks" for t
    using that by (auto simp: gi filter_empty_conv)
  show ?thesis using d so si go gi eo ei no ni by blast
qed


theorem relation_index_partition_witness:
  "get_outgoing (RelationIndex_init [fkA]) (u ''orders'') = [fkA] \<and>
   get_incoming (RelationIndex_init [fkA]) (u ''users'') = [fkA] \<and>
   get_outgoing (RelationIndex_init [fkA]) (u ''users'') = [] \<and>
   get_incoming (RelationIndex_init [fkA]) (u ''orders'') = []"
  using relation_index_partition [of "[fkA]"]
  by (simp add: fkA_def u_def)

section \<open>Field lines\<close>

lemma startswith_append [simp]: "startswith (p @ s) p"
  by (simp add: startswith_def)

lemma startswith_Cons: "startswith (x # xs) (y # ys) \<longleftrightarrow> x = y \<and> startswith xs ys"
  by (auto simp: startswith_def)

lemma startswith_Nil [simp]: "startswith s []"
  by (simp add: startswith_def)

lemma startswith_iff: "startswith s p \<longleftrightarrow> (\<exists>r. s = p @ r)"
proof
  assume "startswith s p"
  then have "s = p @ drop (length p) s"
    unfolding startswith_def by (metis append_take_drop_id)
  then show "\<exists>r. s = p @ r" ..
next
  assume "\<exists>r. s = p @ r"
  then show "startswith s p" by auto
qed

lemma re_lit_append [simp]: "re_lit p (p @ s) = Some s"
  by (simp add: re_lit_def)

lemma re_lit_Some: "re_lit p s = Some r \<longleftrightarrow> s = p @ r"
  by (auto simp: re_lit_def startswith_iff)

lemma isspace_DQ [simp]: "\<not> isspace DQ"
  by (simp add: isspace_def DQ_def)

lemma isspace_COMMA [simp]: "\<not> isspace COMMA"
  by (simp add: isspace_def COMMA_def)

lemma isspace_BOM [simp]: "\<not> isspace BOM"
  by (simp add: isspace_def BOM_def)

lemma takeWhile_stop:
  "\<forall>c\<in>set a. P c \<Longrightarrow> r = [] \<or> \<not> P (hd r) \<Longrightarrow> takeWhile P (a @ r) = a"
  by (cases r) (simp_all add: takeWhile_append2)

lemma dropWhile_stop:
  "\<forall>c\<in>set a. P c \<Longrightarrow> r = [] \<or> \<not> P (hd r) \<Longrightarrow> dropWhile P (a @ r) = r"
  by (cases r) (simp_all add: dropWhile_append2)

lemma quoted_seg_shape:
  assumes "DQ \<notin> set a"
  shows "quoted_seg ([DQ] @ a @ [DQ, COMMA] @ r) = Some (a, dropWhile isspace r)"
proof -
  have a: "\<forall>c\<in>set a. c \<noteq> DQ"
    using assms by auto
  have t: "takeWhile (\<lambda>c. c \<noteq> DQ) (a @ DQ # COMMA # r) = a"
    by (rule takeWhile_stop[OF a]) simp
  have d: "dropWhile (\<lambda>c. c \<noteq> DQ) (a @ DQ # COMMA # r) = DQ # COMMA # r"
    by (rule dropWhile_stop[OF a]) simp
  have "re_lit [DQ] ([DQ] @ a @ [DQ, COMMA] @ r) = Some (a @ [DQ, COMMA] @ r)"
    by (rule re_lit_append)
  moreover have "re_lit [DQ, COMMA] ([DQ, COMMA] @ r) = Some r"
    by (rule re_lit_append)
  ultimately show ?thesis
    by (simp add: quoted_seg_def re_star_def t d)
qed

lemma quoted_seg_next:
  assumes "DQ \<notin> set a" "\<forall>c\<in>set w. isspace c"
  shows "quoted_seg ([DQ] @ a @ [DQ, COMMA] @ w @ [DQ] @ r) = Some (a, [DQ] @ r)"
  using quoted_seg_shape[OF assms(1), of "w @ [DQ] @ r"]
    dropWhile_stop[of w isspace "DQ # r"] assms(2) by simp

lemma strip_dropWhile [simp]: "strip (dropWhile isspace s) = strip s"
  by (simp add: strip_def)

lemma FIELD_PATTERN_match_shape:
  assumes "DQ \<notin> set a" "DQ \<notin> set b" "DQ \<notin> set c" "DQ \<notin> set d"
    and "\<forall>x\<in>set w1. isspace x" "\<forall>x\<in>set w2. isspace x" "\<forall>x\<in>set w3. isspace x"
    and "COMMA \<notin> set tok" "rest = [] \<or> hd rest = COMMA"
  shows "FIELD_PATTERN_match
           (u ''Field='' @ [DQ] @ a @ [DQ, COMMA] @ w1 @ [DQ] @ b @ [DQ, COMMA] @ w2 @
            [DQ] @ c @ [DQ, COMMA] @ w3 @ [DQ] @ d @ [DQ, COMMA] @ tok @ rest)
         = Some (a, b, c, d, dropWhile isspace tok)"
proof -
  let ?r4 = "tok @ rest"
  let ?r3 = "[DQ] @ d @ [DQ, COMMA] @ ?r4"
  let ?r2 = "[DQ] @ c @ [DQ, COMMA] @ w3 @ ?r3"
  let ?r1 = "[DQ] @ b @ [DQ, COMMA] @ w2 @ ?r2"
  let ?r0 = "[DQ] @ a @ [DQ, COMMA] @ w1 @ ?r1"
  have q1: "quoted_seg ?r0 = Some (a, ?r1)"
    using quoted_seg_next[OF assms(1) assms(5)] by simp
  have q2: "quoted_seg ?r1 = Some (b, ?r2)"
    using quoted_seg_next[OF assms(2) assms(6)] by simp
  have q3: "quoted_seg ?r2 = Some (c, ?r3)"
    using quoted_seg_next[OF assms(3) assms(7)] by simp
  have q4: "quoted_seg ?r3 = Some (d, dropWhile isspace ?r4)"
    using quoted_seg_shape[OF assms(4)] by simp
  have dw: "dropWhile isspace ?r4 = dropWhile isspace tok @ rest"
  proof (cases "\<forall>x\<in>set tok. isspace x")
    case True
    then have "dropWhile isspace tok = []" by simp
    moreover have "rest = [] \<or> \<not> isspace (hd rest)" using assms(9) by auto
    ultimately show ?thesis using dropWhile_stop[OF True, of rest] by simp
  next
    case False
    then obtain x where "x \<in> set tok" "\<not> isspace x" by auto
    then show ?thesis by (rule dropWhile_append1)
  qed
  have nc: "\<forall>x\<in>set (dropWhile isspace tok). x \<noteq> COMMA"
    using assms(8) set_dropWhileD[of _ isspace tok] by auto
  have tw: "takeWhile (\<lambda>x. x \<noteq> COMMA) (dropWhile isspace tok @ rest) = dropWhile isspace tok"
    by (rule takeWhile_stop[OF nc]) (use assms(9) in auto)
  have l: "re_lit (u ''Field='') (u ''Field='' @ ?r0) = Some ?r0"
    by (rule re_lit_append)
  show ?thesis
    unfolding FIELD_PATTERN_match_def using l q1 q2 q3 q4 
    by (simp add: re_star_def dw tw)
qed

lemma contains_iff: "contains n h \<longleftrightarrow> (\<exists>pre suf. h = pre @ n @ suf)"
proof (induction h)
  case Nil
  show ?case by auto
next
  case (Cons x xs)
  have "(\<exists>pre suf. x # xs = pre @ n @ suf) \<longleftrightarrow>
        (\<exists>suf. x # xs = n @ suf) \<or> (\<exists>pre suf. xs = pre @ n @ suf)"
  proof
    assume "\<exists>pre suf. x # xs = pre @ n @ suf"
    then obtain pre suf where e: "x # xs = pre @ n @ suf" by blast
    show "(\<exists>suf. x # xs = n @ suf) \<or> (\<exists>pre suf. xs = pre @ n @ suf)"
    proof (cases pre)
      case Nil
      then show ?thesis using e by auto
    next
      case (Cons y ys)
      then have "xs = ys @ n @ suf" using e by simp
      then show ?thesis by blast
    qed
  next
    assume "(\<exists>suf. x # xs = n @ suf) \<or> (\<exists>pre suf. xs = pre @ n @ suf)"
    then show "\<exists>pre suf. x # xs = pre @ n @ suf"
    proof
      assume "\<exists>suf. x # xs = n @ suf"
      then obtain suf where "x # xs = [] @ n @ suf" by auto
      then show ?thesis by blast
    next
      assume "\<exists>pre suf. xs = pre @ n @ suf"
      then obtain pre suf where "x # xs = (x # pre) @ n @ suf" by auto
      then show ?thesis by blast
    qed
  qed
  then show ?case using Cons by (simp add: startswith_iff)
qed

lemma py_upper_ascii: "\<forall>x\<in>set s. x < 128 \<Longrightarrow> py_upper db s = map ascii_upper s"
  by (induction s) (auto simp: py_upper_def upper_char_def ascii_upper_def)

lemma parse_column_shape:
  assumes "DQ \<notin> set a" "DQ \<notin> set b" "DQ \<notin> set c" "DQ \<notin> set d"
    and "\<forall>x\<in>set w1. isspace x" "\<forall>x\<in>set w2. isspace x" "\<forall>x\<in>set w3. isspace x"
    and "COMMA \<notin> set tok" "rest = [] \<or> hd rest = COMMA"
  shows "parse_column db (field_line a w1 b w2 c w3 d tok rest) =
     Some \<lparr>col_logical_name = a, col_physical_name = b, data_type = c,
           not_null = contains (u ''NOT NULL'') (py_upper db d),
           is_pk = (strip tok = u ''0'')\<rparr>"
  unfolding parse_column_def field_line_def
  using FIELD_PATTERN_match_shape[OF assms] by simp

text \<open>
  C2. For every Field line of the shape the pattern matches (no double quote inside the four
  segments, only whitespace between a comma and the next opening quote, no comma inside the
  trailing token, and nothing or a comma after it), the line is parsed into a column whose
  \<open>is_pk\<close> is true exactly when the trailing token, trimmed of surrounding whitespace, is
  the string "0".
\<close>

theorem is_pk_iff_token_trims_to_zero:
  assumes "DQ \<notin> set a" "DQ \<notin> set b" "DQ \<notin> set c" "DQ \<notin> set d"
    and "\<forall>x\<in>set w1. isspace x" "\<forall>x\<in>set w2. isspace x" "\<forall>x\<in>set w3. isspace x"
    and "COMMA \<notin> set tok" "rest = [] \<or> hd rest = COMMA"
  shows "\<exists>col. parse_column db (field_line a w1 b w2 c w3 d tok rest) = Some col \<and>
           (is_pk col \<longleftrightarrow> strip tok = u ''0'')"
  using parse_column_shape[OF assms] by simp

theorem is_pk_iff_token_trims_to_zero_witness:
  "(\<exists>col. parse_column ascii_db (field_line (u ''ID'') [] (u ''id'') [] (u ''INTEGER'') []
       (u ''NOT NULL'') (u ''0'') []) = Some col \<and> is_pk col) \<and>
   (\<exists>col. parse_column ascii_db (field_line (u ''ID'') [] (u ''id'') [] (u ''INTEGER'') []
       (u ''NOT NULL'') (u '' 0 '') []) = Some col \<and> is_pk col) \<and>
   (\<exists>col. parse_column ascii_db (field_line (u ''ID'') [] (u ''id'') [] (u ''INTEGER'') []
       (u ''NOT NULL'') (u ''1'') []) = Some col \<and> \<not> is_pk col) \<and>
   (\<exists>col. parse_column ascii_db (field_line (u ''ID'') [] (u ''id'') [] (u ''INTEGER'') []
       (u ''NOT NULL'') [] []) = Some col \<and> \<not> is_pk col)"
proof -
  have dq: "DQ \<notin> set (u ''ID'')" "DQ \<notin> set (u ''id'')" "DQ \<notin> set (u ''INTEGER'')"
    "DQ \<notin> set (u ''NOT NULL'')"
    by (simp_all add: u_def DQ_def)
  have ws: "\<forall>x\<in>set ([] :: ustr). isspace x" by simp
  have r: "([] :: ustr) = [] \<or> hd ([] :: ustr) = COMMA" by simp
  have c: "COMMA \<notin> set (u ''0'')" "COMMA \<notin> set (u '' 0 '')" "COMMA \<notin> set (u ''1'')"
    "COMMA \<notin> set ([] :: ustr)"
    by (simp_all add: u_def COMMA_def)
  have s: "strip (u ''0'') = u ''0''" "strip (u '' 0 '') = u ''0''" "strip (u ''1'') \<noteq> u ''0''"
    "strip [] \<noteq> u ''0''"
    by (simp_all add: strip_def u_def isspace_def)
  show ?thesis
    using is_pk_iff_token_trims_to_zero[OF dq ws ws ws c(1) r, of ascii_db]
      is_pk_iff_token_trims_to_zero[OF dq ws ws ws c(2) r, of ascii_db]
      is_pk_iff_token_trims_to_zero[OF dq ws ws ws c(3) r, of ascii_db]
      is_pk_iff_token_trims_to_zero[OF dq ws ws ws c(4) r, of ascii_db]
    by (simp add: s)
qed

lemma map_eq_infix:
  "(\<exists>pre suf. map f d = pre @ n @ suf) \<longleftrightarrow> (\<exists>pre w suf. d = pre @ w @ suf \<and> map f w = n)"
proof
  assume "\<exists>pre suf. map f d = pre @ n @ suf"
  then obtain pre suf where e: "map f d = pre @ n @ suf" by blast
  let ?w = "take (length n) (drop (length pre) d)"
  have "map f ?w = take (length n) (drop (length pre) (map f d))"
    by (simp add: take_map drop_map)
  also have "\<dots> = n" by (simp add: e)
  finally have w: "map f ?w = n" .
  have "d = take (length pre) d @ ?w @ drop (length n) (drop (length pre) d)"
    by (simp only: append_take_drop_id)
  with w show "\<exists>pre w suf. d = pre @ w @ suf \<and> map f w = n" by blast
next
  assume "\<exists>pre w suf. d = pre @ w @ suf \<and> map f w = n"
  then obtain pre w suf where "d = pre @ w @ suf" and "map f w = n" by blast
  then have "map f d = map f pre @ n @ map f suf" by simp
  then show "\<exists>pre suf. map f d = pre @ n @ suf" by blast
qed

text \<open>
  C3. For every Field line of that shape, the line is parsed into a column whose \<open>not_null\<close>
  is true exactly when the upper-cased constraints segment contains the upper-cased string
  "NOT NULL" somewhere; and when the segment is ASCII, exactly when some substring of the
  segment equals "NOT NULL" ignoring the case of letters.
\<close>

theorem not_null_iff_constraints_contain_NOT_NULL:
  assumes "DQ \<notin> set a" "DQ \<notin> set b" "DQ \<notin> set c" "DQ \<notin> set d"
    and "\<forall>x\<in>set w1. isspace x" "\<forall>x\<in>set w2. isspace x" "\<forall>x\<in>set w3. isspace x"
    and "COMMA \<notin> set tok" "rest = [] \<or> hd rest = COMMA"
  shows "\<exists>col. parse_column db (field_line a w1 b w2 c w3 d tok rest) = Some col \<and>
           (not_null col \<longleftrightarrow>
              (\<exists>pre suf. py_upper db d = pre @ py_upper db (u ''NOT NULL'') @ suf)) \<and>
           ((\<forall>x\<in>set d. x < 128) \<longrightarrow>
              (not_null col \<longleftrightarrow>
                 (\<exists>pre w suf. d = pre @ w @ suf \<and> eq_ignoring_case w (u ''NOT NULL''))))"
proof -
  let ?col = "\<lparr>col_logical_name = a, col_physical_name = b, data_type = c,
           not_null = contains (u ''NOT NULL'') (py_upper db d),
           is_pk = (strip tok = u ''0'')\<rparr>"
  have n: "py_upper db (u ''NOT NULL'') = u ''NOT NULL''"
    by (simp add: py_upper_def upper_char_def u_def)
  have n': "map ascii_upper (u ''NOT NULL'') = u ''NOT NULL''"
    by (simp add: ascii_upper_def u_def)
  have p: "parse_column db (field_line a w1 b w2 c w3 d tok rest) = Some ?col"
    by (rule parse_column_shape[OF assms])
  have g: "not_null ?col \<longleftrightarrow>
             (\<exists>pre suf. py_upper db d = pre @ py_upper db (u ''NOT NULL'') @ suf)"
    by (simp add: contains_iff n)
  have h: "not_null ?col \<longleftrightarrow>
             (\<exists>pre w suf. d = pre @ w @ suf \<and> eq_ignoring_case w (u ''NOT NULL''))"
    if "\<forall>x\<in>set d. x < 128"
    using map_eq_infix[of ascii_upper d "u ''NOT NULL''"]
    by (simp add: contains_iff py_upper_ascii[OF that] eq_ignoring_case_def n')
  show ?thesis using p g h by blast
qed

end
